theory Spec2Isabelle
  imports Complex_Main
begin

section \<open>Data model\<close>

text \<open>
  The first-interactive detector of Lighthouse (\<^verbatim>\<open>gather/computed/first-interactive.js\<close>).
  JavaScript numbers that carry times are modelled as reals and array indices as integers.
  Sums, differences and comparisons of times are taken exactly; the window-size function,
  whose values depend on the rounding of double-precision arithmetic, is computed with
  every operation rounded to binary64 (section \<open>Double-precision arithmetic\<close>).
  A long task is the object \<^verbatim>\<open>{start, end}\<close>; its \<^verbatim>\<open>end\<close> field is called \<open>endT\<close> here,
  as \<^verbatim>\<open>end\<close> is reserved, and the field \<^verbatim>\<open>timings.traceEnd\<close> is \<open>traceEndT\<close>, so that
  \<open>traceEnd\<close> stays free for the parameter of that name.
\<close>

record longTask =
  start :: real
  endT :: real

record timestampsT =
  navigationStart :: real

record timingsT =
  firstMeaningfulPaint :: real
  domContentLoaded :: real
  traceEndT :: real

record traceOfTab =
  timestamps :: timestampsT
  timings :: timingsT

record firstInteractiveResult =
  timeInMs :: real
  timestamp :: real

text \<open>
  The two \<^verbatim>\<open>throw new Error(...)\<close> of the source are \<open>TraceBusy\<close>
  (\<^verbatim>\<open>'trace was busy the entire time'\<close>) and \<open>TraceTooShort\<close>
  (\<^verbatim>\<open>'trace not at least 5 seconds longer than FMP'\<close>). Reading a property of
  \<^verbatim>\<open>undefined\<close> (an array read out of range) throws a \<open>TypeError\<close>.
\<close>

datatype error = TypeError | TraceBusy | TraceTooShort

definition LONG_TASK_THRESHOLD :: real where
  "LONG_TASK_THRESHOLD = 50"

definition LONELY_TASK_FMP_DISTANCE :: real where
  "LONELY_TASK_FMP_DISTANCE = 5000"

definition LONELY_TASK_ENVELOPE_SIZE :: real where
  "LONELY_TASK_ENVELOPE_SIZE = 250"

definition LONELY_TASK_NEIGHBOR_DISTANCE :: real where
  "LONELY_TASK_NEIGHBOR_DISTANCE = 1000"

definition MAX_QUIET_WINDOW_SIZE :: real where
  "MAX_QUIET_WINDOW_SIZE = 5000"

lemmas constants_defs =
  LONG_TASK_THRESHOLD_def LONELY_TASK_FMP_DISTANCE_def LONELY_TASK_ENVELOPE_SIZE_def
  LONELY_TASK_NEIGHBOR_DISTANCE_def MAX_QUIET_WINDOW_SIZE_def

text \<open>\<^verbatim>\<open>longTasks[i]\<close>: \<open>None\<close> is JavaScript's \<^verbatim>\<open>undefined\<close>.\<close>

definition nth_js :: "'a list \<Rightarrow> int \<Rightarrow> 'a option" where
  "nth_js xs i = (if 0 \<le> i \<and> i < int (length xs) then Some (xs ! nat i) else None)"

section \<open>Double-precision arithmetic\<close>

text \<open>
  A JavaScript number is an IEEE 754 binary64 value: 53 significant bits, the exponent of
  the last bit at least \<open>-1074\<close>. The result of \<^verbatim>\<open>/\<close>, \<^verbatim>\<open>*\<close> and \<^verbatim>\<open>+\<close> is the exact
  result rounded to the nearest such value, ties to the even significand; \<open>binary64\<close> is
  that rounding. Results beyond the largest finite double (which JavaScript turns into
  \<^verbatim>\<open>Infinity\<close>) do not occur in the window-size function at non-negative times and are
  not represented.
\<close>

definition roundHalfEven :: "real \<Rightarrow> int" where
  "roundHalfEven y =
     (let n = \<lfloor>y\<rfloor>
      in if y - of_int n < 1 / 2 then n
         else if y - of_int n > 1 / 2 then n + 1
         else if even n then n else n + 1)"

definition ulpExponent :: "real \<Rightarrow> int" where
  "ulpExponent x = max (\<lfloor>log 2 \<bar>x\<bar>\<rfloor> - 52) (- 1074)"

definition binary64 :: "real \<Rightarrow> real" where
  "binary64 x =
     (if x = 0 then 0
      else of_int (roundHalfEven (x / 2 powr of_int (ulpExponent x))) * 2 powr of_int (ulpExponent x))"

text \<open>
  \<^verbatim>\<open>Math.exp\<close> is a built-in whose result the language leaves to the implementation, up to
  an approximation of the exponential; it is taken as the exponential rounded to binary64.
\<close>

definition Math_exp :: "real \<Rightarrow> real" where
  "Math_exp x = binary64 (exp x)"

section \<open>The detector\<close>

text \<open>
  The literal \<^verbatim>\<open>.045\<close> denotes the double nearest to 0.045; the literals 1000, 4 and 1 are
  doubles themselves, and negation is exact.
\<close>

definition getRequiredWindowSizeInMs :: "real \<Rightarrow> real" where
  "getRequiredWindowSizeInMs t =
     (let tInSeconds = binary64 (t / 1000);
          exponentiationComponent = Math_exp (binary64 (- binary64 0.045 * tInSeconds))
      in binary64 (binary64 (binary64 (4 * exponentiationComponent) + 1) * 1000))"

text \<open>
  The \<^verbatim>\<open>for\<close> loop of \<^verbatim>\<open>getLastLonelyTaskIndex\<close>; its state is the cursor \<open>j\<close> and
  \<open>lonelyTaskIndex\<close>. The loop stops at the first \<open>j\<close> where \<^verbatim>\<open>longTasks[j]\<close> is
  undefined or starts at or after \<open>windowEnd\<close>.
\<close>

function lonelyScan :: "longTask list \<Rightarrow> real \<Rightarrow> real \<Rightarrow> int \<Rightarrow> int \<Rightarrow> int" where
  "lonelyScan longTasks envelopeEnd windowEnd j lonelyTaskIndex =
     (case nth_js longTasks j of
        None \<Rightarrow> lonelyTaskIndex
      | Some t \<Rightarrow>
          if start t < windowEnd
          then lonelyScan longTasks envelopeEnd windowEnd (j + 1)
                 (if endT t > envelopeEnd then - 1 else j)
          else lonelyTaskIndex)"
  by pat_completeness auto
termination
  by (relation "measure (\<lambda>(ts, e, w, j, l). nat (int (length ts) - j))")
     (auto simp: nth_js_def split: if_splits)

declare lonelyScan.simps [simp del]

text \<open>
  The gate is a chain of \<^verbatim>\<open>||\<close>, evaluated left to right: \<^verbatim>\<open>previousTask.end\<close> is read
  only when the first two tests are false.
\<close>

definition getLastLonelyTaskIndex :: "longTask list \<Rightarrow> int \<Rightarrow> real \<Rightarrow> real \<Rightarrow> error + int" where
  "getLastLonelyTaskIndex longTasks i FMP traceEnd =
     (case nth_js longTasks i of
        None \<Rightarrow> Inl TypeError
      | Some longTask \<Rightarrow>
          if start longTask < FMP + LONELY_TASK_FMP_DISTANCE \<or>
             traceEnd - endT longTask < LONELY_TASK_NEIGHBOR_DISTANCE
          then Inr (- 1)
          else
            (case nth_js longTasks (i - 1) of
               None \<Rightarrow> Inl TypeError
             | Some previousTask \<Rightarrow>
                 if start longTask - endT previousTask < LONELY_TASK_NEIGHBOR_DISTANCE \<or>
                    endT longTask - start longTask > LONELY_TASK_ENVELOPE_SIZE
                 then Inr (- 1)
                 else
                   (let envelopeEnd = start longTask + LONELY_TASK_ENVELOPE_SIZE;
                        windowEnd = envelopeEnd + LONELY_TASK_NEIGHBOR_DISTANCE
                    in Inr (lonelyScan longTasks envelopeEnd windowEnd (i + 1) i))))"

lemma lonelyScan_bounds:
  "i \<le> acc \<or> acc = - 1 \<Longrightarrow> acc < int (length ts) \<Longrightarrow> i < j \<Longrightarrow>
   lonelyScan ts e w j acc = - 1 \<or>
   (i \<le> lonelyScan ts e w j acc \<and> lonelyScan ts e w j acc < int (length ts))"
proof (induction ts e w j acc rule: lonelyScan.induct)
  case (1 ts e w j acc)
  show ?case
  proof (cases "nth_js ts j")
    case None
    with "1.prems" show ?thesis
      by (subst (1 2 3) lonelyScan.simps) auto
  next
    case (Some t)
    show ?thesis
    proof (cases "start t < w")
      case False
      with Some "1.prems" show ?thesis
        by (subst (1 2 3) lonelyScan.simps) auto
    next
      case True
      from Some have j: "0 \<le> j" "j < int (length ts)"
        by (auto simp: nth_js_def split: if_splits)
      have "lonelyScan ts e w (j + 1) (if e < endT t then - 1 else j) = - 1 \<or>
            (i \<le> lonelyScan ts e w (j + 1) (if e < endT t then - 1 else j) \<and>
             lonelyScan ts e w (j + 1) (if e < endT t then - 1 else j) < int (length ts))"
        using "1.prems" j by (intro "1.IH" [OF Some True]) auto
      with Some True show ?thesis
        by (subst (1 2 3) lonelyScan.simps) simp
    qed
  qed
qed

lemma getLastLonelyTaskIndex_bounds:
  assumes "getLastLonelyTaskIndex ts i FMP te = Inr k" and "k \<noteq> - 1"
  shows "i \<le> k \<and> k < int (length ts)"
proof -
  from assms obtain t where t: "nth_js ts i = Some t"
    by (auto simp: getLastLonelyTaskIndex_def split: option.splits)
  then have i: "i < int (length ts)"
    by (auto simp: nth_js_def split: if_splits)
  from assms t have k: "k = lonelyScan ts (start t + LONELY_TASK_ENVELOPE_SIZE)
      (start t + LONELY_TASK_ENVELOPE_SIZE + LONELY_TASK_NEIGHBOR_DISTANCE) (i + 1) i"
    by (auto simp: getLastLonelyTaskIndex_def Let_def split: option.splits if_splits)
  from lonelyScan_bounds [of i i ts "i + 1"] i assms(2) show ?thesis
    unfolding k by fastforce
qed

text \<open>
  The inner \<^verbatim>\<open>for\<close> loop of \<^verbatim>\<open>findQuietWindow\<close>, from cursor \<open>j\<close>: the value is
  \<^verbatim>\<open>isQuiet\<close> at the loop's exit. The body assigns \<^verbatim>\<open>j = lastLonelyTaskIndex\<close> and the
  loop header then increments it.
\<close>

function isQuietFrom :: "longTask list \<Rightarrow> real \<Rightarrow> real \<Rightarrow> real \<Rightarrow> int \<Rightarrow> error + bool" where
  "isQuietFrom longTasks FMP traceEnd windowEnd j =
     (if j < int (length longTasks) then
        (case nth_js longTasks j of
           None \<Rightarrow> Inl TypeError
         | Some t \<Rightarrow>
             if start t < windowEnd then
               (case getLastLonelyTaskIndex longTasks j FMP traceEnd of
                  Inl e \<Rightarrow> Inl e
                | Inr lastLonelyTaskIndex \<Rightarrow>
                    if lastLonelyTaskIndex = - 1 then Inr False
                    else isQuietFrom longTasks FMP traceEnd windowEnd (lastLonelyTaskIndex + 1))
             else Inr True)
      else Inr True)"
  by pat_completeness auto
termination
proof (relation "measure (\<lambda>(ts, FMP, te, w, j). nat (int (length ts) - j))", goal_cases)
  case 1
  show ?case by simp
next
  case (2 ts FMP te w j t k)
  from getLastLonelyTaskIndex_bounds [OF 2(4) 2(5)] 2(1) show ?case
    by simp
qed

declare isQuietFrom.simps [simp del]

text \<open>The outer \<^verbatim>\<open>for\<close> loop of \<^verbatim>\<open>findQuietWindow\<close>, from candidate \<open>i\<close>.\<close>

function findQuietWindowFrom :: "real \<Rightarrow> real \<Rightarrow> longTask list \<Rightarrow> int \<Rightarrow> error + real" where
  "findQuietWindowFrom FMP traceEnd longTasks i =
     (if i < int (length longTasks) then
        (case nth_js longTasks i of
           None \<Rightarrow> Inl TypeError
         | Some event \<Rightarrow>
             (let windowStart = endT event;
                  windowSize = getRequiredWindowSizeInMs (windowStart - FMP);
                  windowEnd = windowStart + windowSize
              in if windowEnd > traceEnd then Inl TraceBusy
                 else
                   (case isQuietFrom longTasks FMP traceEnd windowEnd (i + 1) of
                      Inl e \<Rightarrow> Inl e
                    | Inr isQuiet \<Rightarrow>
                        if isQuiet then Inr windowStart
                        else findQuietWindowFrom FMP traceEnd longTasks (i + 1))))
      else Inl TraceBusy)"
  by pat_completeness auto
termination
  by (relation "measure (\<lambda>(FMP, te, ts, i). nat (int (length ts) - i))") auto

declare findQuietWindowFrom.simps [simp del]

definition findQuietWindow :: "real \<Rightarrow> real \<Rightarrow> longTask list \<Rightarrow> error + real" where
  "findQuietWindow FMP traceEnd longTasks =
     (if length longTasks = 0 then Inr FMP
      else
        (case nth_js longTasks 0 of
           None \<Rightarrow> Inl TypeError
         | Some first \<Rightarrow>
             if start first > FMP + MAX_QUIET_WINDOW_SIZE then Inr FMP
             else findQuietWindowFrom FMP traceEnd longTasks 0))"

text \<open>
  \<^verbatim>\<open>computeWithArtifacts(trace, traceModel, traceOfTab)\<close>. The helper
  \<^verbatim>\<open>TracingProcessor.getMainThreadTopLevelEvents(traceModel, trace, FMP)\<close> is not part of
  the sources at hand; it is the parameter \<open>getMainThreadTopLevelEvents\<close>, a function of
  \<open>FMP\<close> for the fixed trace and trace model.
\<close>

definition computeWithArtifacts ::
  "(real \<Rightarrow> longTask list) \<Rightarrow> traceOfTab \<Rightarrow> error + firstInteractiveResult" where
  "computeWithArtifacts getMainThreadTopLevelEvents tab =
     (let navStart = navigationStart (timestamps tab);
          FMP = firstMeaningfulPaint (timings tab);
          DCL = domContentLoaded (timings tab);
          traceEnd = traceEndT (timings tab)
      in if traceEnd - FMP < MAX_QUIET_WINDOW_SIZE then Inl TraceTooShort
         else
           (let longTasksAfterFMP =
                  filter (\<lambda>evt. endT evt - start evt \<ge> LONG_TASK_THRESHOLD \<and> endT evt > FMP)
                    (getMainThreadTopLevelEvents FMP)
            in case findQuietWindow FMP traceEnd longTasksAfterFMP of
                 Inl e \<Rightarrow> Inl e
               | Inr firstInteractive \<Rightarrow>
                   (let valueInMs = max firstInteractive DCL
                    in Inr \<lparr>timeInMs = valueInMs,
                            timestamp = (valueInMs + navStart) * 1000\<rparr>)))"

section \<open>The second excerpt of the detector\<close>

text \<open>
  The sources hold a second copy of the class, without the doc comment of the file and with
  the long-task threshold written as the literal \<^verbatim>\<open>50\<close> in the filter. It is embedded
  function by function under the suffix \<open>_v2\<close>; the constants other than the threshold are
  declared with the same values in both files.
\<close>

definition getRequiredWindowSizeInMs_v2 :: "real \<Rightarrow> real" where
  "getRequiredWindowSizeInMs_v2 t =
     (let tInSeconds = binary64 (t / 1000);
          exponentiationComponent = Math_exp (binary64 (- binary64 0.045 * tInSeconds))
      in binary64 (binary64 (binary64 (4 * exponentiationComponent) + 1) * 1000))"

function lonelyScan_v2 :: "longTask list \<Rightarrow> real \<Rightarrow> real \<Rightarrow> int \<Rightarrow> int \<Rightarrow> int" where
  "lonelyScan_v2 longTasks envelopeEnd windowEnd j lonelyTaskIndex =
     (case nth_js longTasks j of
        None \<Rightarrow> lonelyTaskIndex
      | Some t \<Rightarrow>
          if start t < windowEnd
          then lonelyScan_v2 longTasks envelopeEnd windowEnd (j + 1)
                 (if endT t > envelopeEnd then - 1 else j)
          else lonelyTaskIndex)"
  by pat_completeness auto
termination
  by (relation "measure (\<lambda>(ts, e, w, j, l). nat (int (length ts) - j))")
     (auto simp: nth_js_def split: if_splits)

declare lonelyScan_v2.simps [simp del]

definition getLastLonelyTaskIndex_v2 :: "longTask list \<Rightarrow> int \<Rightarrow> real \<Rightarrow> real \<Rightarrow> error + int" where
  "getLastLonelyTaskIndex_v2 longTasks i FMP traceEnd =
     (case nth_js longTasks i of
        None \<Rightarrow> Inl TypeError
      | Some longTask \<Rightarrow>
          if start longTask < FMP + LONELY_TASK_FMP_DISTANCE \<or>
             traceEnd - endT longTask < LONELY_TASK_NEIGHBOR_DISTANCE
          then Inr (- 1)
          else
            (case nth_js longTasks (i - 1) of
               None \<Rightarrow> Inl TypeError
             | Some previousTask \<Rightarrow>
                 if start longTask - endT previousTask < LONELY_TASK_NEIGHBOR_DISTANCE \<or>
                    endT longTask - start longTask > LONELY_TASK_ENVELOPE_SIZE
                 then Inr (- 1)
                 else
                   (let envelopeEnd = start longTask + LONELY_TASK_ENVELOPE_SIZE;
                        windowEnd = envelopeEnd + LONELY_TASK_NEIGHBOR_DISTANCE
                    in Inr (lonelyScan_v2 longTasks envelopeEnd windowEnd (i + 1) i))))"

lemma lonelyScan_v2_eq: "lonelyScan_v2 ts e w j acc = lonelyScan ts e w j acc"
proof (induction ts e w j acc rule: lonelyScan.induct)
  case (1 ts e w j acc)
  show ?case
    by (subst lonelyScan_v2.simps, subst lonelyScan.simps)
       (simp add: "1.IH" split: option.splits)
qed

lemma getLastLonelyTaskIndex_v2_eq:
  "getLastLonelyTaskIndex_v2 ts i FMP te = getLastLonelyTaskIndex ts i FMP te"
proof -
  have scan: "lonelyScan_v2 = lonelyScan"
    by (intro ext) (rule lonelyScan_v2_eq)
  show ?thesis
    unfolding getLastLonelyTaskIndex_v2_def getLastLonelyTaskIndex_def scan
    by (rule refl)
qed

function isQuietFrom_v2 :: "longTask list \<Rightarrow> real \<Rightarrow> real \<Rightarrow> real \<Rightarrow> int \<Rightarrow> error + bool" where
  "isQuietFrom_v2 longTasks FMP traceEnd windowEnd j =
     (if j < int (length longTasks) then
        (case nth_js longTasks j of
           None \<Rightarrow> Inl TypeError
         | Some t \<Rightarrow>
             if start t < windowEnd then
               (case getLastLonelyTaskIndex_v2 longTasks j FMP traceEnd of
                  Inl e \<Rightarrow> Inl e
                | Inr lastLonelyTaskIndex \<Rightarrow>
                    if lastLonelyTaskIndex = - 1 then Inr False
                    else isQuietFrom_v2 longTasks FMP traceEnd windowEnd (lastLonelyTaskIndex + 1))
             else Inr True)
      else Inr True)"
  by pat_completeness auto
termination
proof (relation "measure (\<lambda>(ts, FMP, te, w, j). nat (int (length ts) - j))", goal_cases)
  case 1
  show ?case by simp
next
  case (2 ts FMP te w j t k)
  from getLastLonelyTaskIndex_bounds [OF 2(4) [unfolded getLastLonelyTaskIndex_v2_eq] 2(5)] 2(1)
  show ?case
    by simp
qed

declare isQuietFrom_v2.simps [simp del]

function findQuietWindowFrom_v2 :: "real \<Rightarrow> real \<Rightarrow> longTask list \<Rightarrow> int \<Rightarrow> error + real" where
  "findQuietWindowFrom_v2 FMP traceEnd longTasks i =
     (if i < int (length longTasks) then
        (case nth_js longTasks i of
           None \<Rightarrow> Inl TypeError
         | Some event \<Rightarrow>
             (let windowStart = endT event;
                  windowSize = getRequiredWindowSizeInMs_v2 (windowStart - FMP);
                  windowEnd = windowStart + windowSize
              in if windowEnd > traceEnd then Inl TraceBusy
                 else
                   (case isQuietFrom_v2 longTasks FMP traceEnd windowEnd (i + 1) of
                      Inl e \<Rightarrow> Inl e
                    | Inr isQuiet \<Rightarrow>
                        if isQuiet then Inr windowStart
                        else findQuietWindowFrom_v2 FMP traceEnd longTasks (i + 1))))
      else Inl TraceBusy)"
  by pat_completeness auto
termination
  by (relation "measure (\<lambda>(FMP, te, ts, i). nat (int (length ts) - i))") auto

declare findQuietWindowFrom_v2.simps [simp del]

definition findQuietWindow_v2 :: "real \<Rightarrow> real \<Rightarrow> longTask list \<Rightarrow> error + real" where
  "findQuietWindow_v2 FMP traceEnd longTasks =
     (if length longTasks = 0 then Inr FMP
      else
        (case nth_js longTasks 0 of
           None \<Rightarrow> Inl TypeError
         | Some first \<Rightarrow>
             if start first > FMP + MAX_QUIET_WINDOW_SIZE then Inr FMP
             else findQuietWindowFrom_v2 FMP traceEnd longTasks 0))"

definition computeWithArtifacts_v2 ::
  "(real \<Rightarrow> longTask list) \<Rightarrow> traceOfTab \<Rightarrow> error + firstInteractiveResult" where
  "computeWithArtifacts_v2 getMainThreadTopLevelEvents tab =
     (let navStart = navigationStart (timestamps tab);
          FMP = firstMeaningfulPaint (timings tab);
          DCL = domContentLoaded (timings tab);
          traceEnd = traceEndT (timings tab)
      in if traceEnd - FMP < MAX_QUIET_WINDOW_SIZE then Inl TraceTooShort
         else
           (let longTasks =
                  filter (\<lambda>evt. endT evt - start evt \<ge> 50 \<and> endT evt > FMP)
                    (getMainThreadTopLevelEvents FMP)
            in case findQuietWindow_v2 FMP traceEnd longTasks of
                 Inl e \<Rightarrow> Inl e
               | Inr firstInteractive \<Rightarrow>
                   (let valueInMs = max firstInteractive DCL
                    in Inr \<lparr>timeInMs = valueInMs,
                            timestamp = (valueInMs + navStart) * 1000\<rparr>)))"

lemma getRequiredWindowSizeInMs_v2_eq: "getRequiredWindowSizeInMs_v2 t = getRequiredWindowSizeInMs t"
  by (simp add: getRequiredWindowSizeInMs_v2_def getRequiredWindowSizeInMs_def)

lemma isQuietFrom_v2_eq: "isQuietFrom_v2 ts FMP te w j = isQuietFrom ts FMP te w j"
proof (induction ts FMP te w j rule: isQuietFrom.induct)
  case (1 ts FMP te w j)
  show ?case
    by (subst isQuietFrom_v2.simps, subst isQuietFrom.simps)
       (simp add: "1.IH" getLastLonelyTaskIndex_v2_eq split: option.splits sum.splits)
qed

lemma findQuietWindowFrom_v2_eq:
  "findQuietWindowFrom_v2 FMP te ts i = findQuietWindowFrom FMP te ts i"
proof (induction FMP te ts i rule: findQuietWindowFrom.induct)
  case (1 FMP te ts i)
  show ?case
    by (subst findQuietWindowFrom_v2.simps, subst findQuietWindowFrom.simps)
       (simp add: "1.IH" isQuietFrom_v2_eq getRequiredWindowSizeInMs_v2_eq Let_def
          split: option.splits sum.splits)
qed

lemma findQuietWindow_v2_eq: "findQuietWindow_v2 FMP te ts = findQuietWindow FMP te ts"
proof -
  have loop: "findQuietWindowFrom_v2 = findQuietWindowFrom"
    by (intro ext) (rule findQuietWindowFrom_v2_eq)
  show ?thesis
    unfolding findQuietWindow_v2_def findQuietWindow_def loop
    by (rule refl)
qed

lemma computeWithArtifacts_v2_eq:
  "computeWithArtifacts_v2 ev tab = computeWithArtifacts ev tab"
proof -
  have scanner: "findQuietWindow_v2 = findQuietWindow"
    by (intro ext) (rule findQuietWindow_v2_eq)
  show ?thesis
    unfolding computeWithArtifacts_v2_def computeWithArtifacts_def LONG_TASK_THRESHOLD_def scanner
    by (rule refl)
qed

section \<open>Notions used to state the properties\<close>




text \<open>The task list of the test \<^verbatim>\<open>should allow lonely tasks\<close>.\<close>

definition lonelyTasksExample :: "longTask list" where
  "lonelyTasksExample =
     [\<lparr>start = 2200, endT = 10000\<rparr>, \<lparr>start = 11000, endT = 11500\<rparr>,
      \<lparr>start = 12750, endT = 12825\<rparr>, \<lparr>start = 12850, endT = 12930\<rparr>,
      \<lparr>start = 12935, endT = 12990\<rparr>, \<lparr>start = 14000, endT = 14200\<rparr>]"



section \<open>Auxiliary facts\<close>

subsection \<open>Array reads\<close>




subsection \<open>Rounding to binary64\<close>

text \<open>
  Rounding is odd and monotone, and it leaves every value \<open>m * 2^k\<close> with \<open>|m| < 2^53\<close> and
  \<open>k \<ge> -1074\<close> as it is. A positive amount below \<open>2^-53\<close> added to 1 is rounded away.
\<close>

lemma roundHalfEven_of_int: "roundHalfEven (of_int n) = n"
  by (simp add: roundHalfEven_def)

lemma roundHalfEven_mono: "y \<le> z \<Longrightarrow> roundHalfEven y \<le> roundHalfEven z"
proof -
  assume yz: "y \<le> z"
  then have fl: "\<lfloor>y\<rfloor> \<le> \<lfloor>z\<rfloor>" by (rule floor_mono)
  show ?thesis
  proof (cases "\<lfloor>y\<rfloor> = \<lfloor>z\<rfloor>")
    case True
    with yz show ?thesis
      by (auto simp: roundHalfEven_def Let_def)
  next
    case False
    with fl have "\<lfloor>y\<rfloor> + 1 \<le> \<lfloor>z\<rfloor>" by simp
    moreover have "roundHalfEven y \<le> \<lfloor>y\<rfloor> + 1"
      by (simp add: roundHalfEven_def Let_def)
    moreover have "\<lfloor>z\<rfloor> \<le> roundHalfEven z"
      by (simp add: roundHalfEven_def Let_def)
    ultimately show ?thesis by linarith
  qed
qed

lemma roundHalfEven_minus: "roundHalfEven (- y) = - roundHalfEven y"
proof (cases "y = of_int \<lfloor>y\<rfloor>")
  case True
  then obtain n where "y = of_int n" ..
  then show ?thesis
    by (simp add: roundHalfEven_of_int flip: of_int_minus)
next
  case False
  define n where "n = \<lfloor>y\<rfloor>"
  define d where "d = y - of_int n"
  from False have d: "0 < d" "d < 1"
    unfolding d_def n_def by linarith+
  have y: "y = of_int n + d"
    by (simp add: d_def)
  have fy: "\<lfloor>y\<rfloor> = n"
    by (simp add: n_def)
  have fm: "\<lfloor>- y\<rfloor> = - n - 1"
    using d by (intro floor_unique) (simp_all add: y)
  have ry: "roundHalfEven y =
      (if d < 1 / 2 then n else if d > 1 / 2 then n + 1 else if even n then n else n + 1)"
    unfolding roundHalfEven_def fy Let_def by (simp add: y)
  have rm: "roundHalfEven (- y) =
      (if 1 - d < 1 / 2 then - n - 1 else if 1 - d > 1 / 2 then - n
       else if even (- n - 1) then - n - 1 else - n)"
    unfolding roundHalfEven_def fm Let_def by (simp add: y)
  show ?thesis
    unfolding ry rm using d by auto
qed

lemma roundHalfEven_ge: "of_int n \<le> y \<Longrightarrow> n \<le> roundHalfEven y"
  using roundHalfEven_mono [of "of_int n" y] by (simp add: roundHalfEven_of_int)

lemma roundHalfEven_le: "y \<le> of_int n \<Longrightarrow> roundHalfEven y \<le> n"
  using roundHalfEven_mono [of y "of_int n"] by (simp add: roundHalfEven_of_int)

lemma ulpExponent_minus: "ulpExponent (- x) = ulpExponent x"
  by (simp add: ulpExponent_def)

lemma ulpExponent_mono: "0 < x \<Longrightarrow> x \<le> y \<Longrightarrow> ulpExponent x \<le> ulpExponent y"
proof -
  assume "0 < x" "x \<le> y"
  then have "log 2 \<bar>x\<bar> \<le> log 2 \<bar>y\<bar>" by simp
  then have "\<lfloor>log 2 \<bar>x\<bar>\<rfloor> \<le> \<lfloor>log 2 \<bar>y\<bar>\<rfloor>" by (rule floor_mono)
  then show ?thesis by (simp add: ulpExponent_def)
qed

lemma below_binade:
  assumes "0 < x"
  shows "x < 2 powr of_int (ulpExponent x + 53)"
proof -
  have "log 2 x < of_int \<lfloor>log 2 x\<rfloor> + 1" by linarith
  also have "\<dots> \<le> of_int (ulpExponent x + 53)"
    using assms by (simp add: ulpExponent_def)
  finally have "2 powr log 2 x < 2 powr of_int (ulpExponent x + 53)"
    by (simp only: powr_less_cancel_iff)
  with assms show ?thesis by simp
qed

lemma above_binade:
  assumes "0 < x" and "- 1074 < ulpExponent x"
  shows "2 powr of_int (ulpExponent x + 52) \<le> x"
proof -
  from assms have "ulpExponent x = \<lfloor>log 2 x\<rfloor> - 52"
    by (simp add: ulpExponent_def max_def split: if_splits)
  then have "of_int (ulpExponent x + 52) \<le> log 2 x" by simp
  then have "2 powr of_int (ulpExponent x + 52) \<le> 2 powr log 2 x"
    by (simp only: powr_le_cancel_iff)
  with assms show ?thesis by simp
qed

lemma binary64_zero: "binary64 0 = 0"
  by (simp add: binary64_def)

lemma binary64_minus: "binary64 (- x) = - binary64 x"
  by (simp add: binary64_def ulpExponent_minus roundHalfEven_minus)

lemma binary64_nonneg: "0 \<le> x \<Longrightarrow> 0 \<le> binary64 x"
proof -
  assume "0 \<le> x"
  then have "0 \<le> x / 2 powr of_int (ulpExponent x)" by simp
  then have "0 \<le> roundHalfEven (x / 2 powr of_int (ulpExponent x))"
    using roundHalfEven_ge [of 0] by simp
  then show ?thesis by (simp add: binary64_def)
qed

lemma binary64_mono_pos:
  assumes "0 < x" and "x \<le> y"
  shows "binary64 x \<le> binary64 y"
proof -
  let ?ex = "ulpExponent x" and ?ey = "ulpExponent y"
  from assms have y: "0 < y" by simp
  have rx: "binary64 x = of_int (roundHalfEven (x / 2 powr of_int ?ex)) * 2 powr of_int ?ex"
    using assms by (simp add: binary64_def)
  have ry: "binary64 y = of_int (roundHalfEven (y / 2 powr of_int ?ey)) * 2 powr of_int ?ey"
    using y by (simp add: binary64_def)
  from ulpExponent_mono [OF assms] have le: "?ex \<le> ?ey" .
  show ?thesis
  proof (cases "?ex = ?ey")
    case True
    from assms have "x / 2 powr of_int ?ey \<le> y / 2 powr of_int ?ey"
      by (simp add: divide_right_mono)
    then have "roundHalfEven (x / 2 powr of_int ?ey) \<le> roundHalfEven (y / 2 powr of_int ?ey)"
      by (rule roundHalfEven_mono)
    then show ?thesis
      unfolding rx ry True by (simp add: mult_right_mono)
  next
    case False
    have "- 1074 \<le> ?ex"
      by (simp add: ulpExponent_def)
    with le False have lt: "?ex + 53 \<le> ?ey + 52" and ey: "- 1074 < ?ey"
      by linarith+
    have "x / 2 powr of_int ?ex < 2 powr of_int (?ex + 53) / 2 powr of_int ?ex"
      using below_binade [OF assms(1)] by (simp add: divide_strict_right_mono)
    also have "\<dots> = 2 powr 53"
      by (simp add: powr_diff [symmetric])
    also have "\<dots> = of_int (2 ^ 53)"
      by (simp add: powr_numeral)
    finally have "roundHalfEven (x / 2 powr of_int ?ex) \<le> 2 ^ 53"
      by (intro roundHalfEven_le) simp
    then have "of_int (roundHalfEven (x / 2 powr of_int ?ex)) \<le> (2 powr 53 :: real)"
      by (simp add: powr_numeral flip: of_int_le_iff)
    then have "binary64 x \<le> 2 powr 53 * 2 powr of_int ?ex"
      unfolding rx by (simp add: mult_right_mono)
    also have "\<dots> = 2 powr of_int (?ex + 53)"
      by (simp only: powr_add of_int_add of_int_numeral mult.commute)
    also have "\<dots> \<le> 2 powr of_int (?ey + 52)"
      using lt by (simp only: powr_le_cancel_iff of_int_le_iff)
    also have "\<dots> \<le> binary64 y"
    proof -
      have "2 powr of_int (?ey + 52) / 2 powr of_int ?ey \<le> y / 2 powr of_int ?ey"
        using above_binade [OF y ey] by (simp add: divide_right_mono)
      moreover have "2 powr of_int (?ey + 52) / 2 powr of_int ?ey = (2 powr 52 :: real)"
        by (simp add: powr_diff [symmetric])
      moreover have "(2 powr 52 :: real) = of_int (2 ^ 52)"
        by (simp add: powr_numeral)
      ultimately have "2 ^ 52 \<le> roundHalfEven (y / 2 powr of_int ?ey)"
        by (intro roundHalfEven_ge) simp
      then have "(2 powr 52 :: real) \<le> of_int (roundHalfEven (y / 2 powr of_int ?ey))"
        by (simp add: powr_numeral flip: of_int_le_iff)
      then have "2 powr 52 * 2 powr of_int ?ey \<le> binary64 y"
        unfolding ry by (simp add: mult_right_mono)
      moreover have "2 powr of_int (?ey + 52) = (2 powr 52 * 2 powr of_int ?ey :: real)"
        by (simp only: powr_add of_int_add of_int_numeral mult.commute)
      ultimately show ?thesis
        by simp
    qed
    finally show ?thesis .
  qed
qed

lemma binary64_mono: "x \<le> y \<Longrightarrow> binary64 x \<le> binary64 y"
proof -
  assume xy: "x \<le> y"
  consider "0 < x" | "x \<le> 0" "0 \<le> y" | "y < 0" by linarith
  then show ?thesis
  proof cases
    case 1
    then show ?thesis using xy by (rule binary64_mono_pos)
  next
    case 2
    then have "0 \<le> binary64 y" "0 \<le> binary64 (- x)"
      by (simp_all add: binary64_nonneg)
    then show ?thesis by (simp add: binary64_minus)
  next
    case 3
    with xy have "binary64 (- y) \<le> binary64 (- x)"
      by (intro binary64_mono_pos) simp_all
    then show ?thesis by (simp add: binary64_minus)
  qed
qed

lemma binary64_representable:
  assumes "\<bar>m\<bar> < 2 ^ 53" and "- 1074 \<le> k"
  shows "binary64 (of_int m * 2 powr of_int k) = of_int m * 2 powr of_int k"
proof (cases "m = 0")
  case True
  then show ?thesis by (simp add: binary64_zero)
next
  case False
  define x :: real where "x = of_int m * 2 powr of_int k"
  define e where "e = ulpExponent x"
  from False have nz: "x \<noteq> 0" by (simp add: x_def)
  have "\<bar>x\<bar> = of_int \<bar>m\<bar> * 2 powr of_int k"
    by (simp add: x_def abs_mult)
  also have "\<dots> < of_int (2 ^ 53) * 2 powr of_int k"
    using assms(1) by (intro mult_strict_right_mono) (simp_all flip: of_int_less_iff)
  also have "\<dots> = 2 powr of_int (53 + k)"
    by (simp add: powr_add powr_numeral)
  finally have "log 2 \<bar>x\<bar> < of_int (53 + k)"
    using nz by (subst log_less_iff) simp_all
  then have "\<lfloor>log 2 \<bar>x\<bar>\<rfloor> < 53 + k"
    by (simp only: floor_less_iff)
  with assms(2) have ek: "e \<le> k"
    by (simp add: e_def ulpExponent_def)
  then obtain j where j: "k = e + int j"
    by (metis zle_iff_zadd)
  have pk: "2 powr of_int k = 2 powr of_int e * (2 ^ j :: real)"
    unfolding j by (simp add: powr_add powr_realpow)
  have q: "x / 2 powr of_int e = of_int (m * 2 ^ j)"
    by (simp add: x_def pk)
  have "binary64 x = of_int (roundHalfEven (x / 2 powr of_int e)) * 2 powr of_int e"
    using nz by (simp add: binary64_def e_def)
  also have "\<dots> = of_int (m * 2 ^ j) * 2 powr of_int e"
    unfolding q roundHalfEven_of_int ..
  also have "\<dots> = x"
    by (simp add: x_def pk)
  finally show ?thesis
    by (simp add: x_def)
qed

lemma binary64_of_int: "\<bar>m\<bar> < 2 ^ 53 \<Longrightarrow> binary64 (of_int m) = of_int m"
  using binary64_representable [of m 0] by simp

lemma binary64_dyadic:
  "\<bar>m\<bar> < 2 ^ 53 \<Longrightarrow> j \<le> 1074 \<Longrightarrow> binary64 (of_int m / 2 ^ j) = of_int m / 2 ^ j"
  using binary64_representable [of m "- int j"]
  by (simp add: powr_minus powr_realpow divide_inverse)


subsection \<open>The window size\<close>

text \<open>
  Values of the rounded computation are enclosed between doubles: rounding is monotone and
  fixes the bounds. For the exponential, \<open>1 + x \<le> exp x\<close> and \<open>exp (-56) \<le> 2^-56\<close> are
  enough.
\<close>

lemma binary64_ge: "binary64 a = a \<Longrightarrow> a \<le> x \<Longrightarrow> a \<le> binary64 x"
  using binary64_mono [of a x] by simp

lemma binary64_le: "binary64 b = b \<Longrightarrow> x \<le> b \<Longrightarrow> binary64 x \<le> b"
  using binary64_mono [of x b] by simp

lemma binary64_ints:
  "binary64 1 = 1" "binary64 4 = 4" "binary64 5 = 5" "binary64 56 = 56"
  "binary64 1000 = 1000" "binary64 1792 = 1792" "binary64 3375 = 3375" "binary64 5000 = 5000"
  using binary64_of_int [of 1] binary64_of_int [of 4] binary64_of_int [of 5]
    binary64_of_int [of 56] binary64_of_int [of 1000] binary64_of_int [of 1792]
    binary64_of_int [of 3375] binary64_of_int [of 5000]
  by simp_all

lemma binary64_fractions:
  "binary64 (1 / 32) = 1 / 32" "binary64 (1 / 16) = 1 / 16" "binary64 (13 / 2) = 13 / 2"
  "binary64 (13 / 32) = 13 / 32" "binary64 (19 / 32) = 19 / 32" "binary64 (19 / 8) = 19 / 8"
  "binary64 (27 / 8) = 27 / 8" "binary64 (1 / 2 ^ 56) = 1 / 2 ^ 56" "binary64 (1 / 2 ^ 54) = 1 / 2 ^ 54"
  using binary64_dyadic [of 1 5] binary64_dyadic [of 1 4] binary64_dyadic [of 13 1]
    binary64_dyadic [of 13 5] binary64_dyadic [of 19 5] binary64_dyadic [of 19 3]
    binary64_dyadic [of 27 3] binary64_dyadic [of 1 56] binary64_dyadic [of 1 54]
  by simp_all

lemma literal_045: "1 / 32 \<le> binary64 0.045" "binary64 0.045 \<le> 1 / 16"
  using binary64_ge [of "1 / 32" "0.045"] binary64_le [of "1 / 16" "0.045"]
  by (simp_all add: binary64_fractions)

lemma rws_formula:
  "getRequiredWindowSizeInMs t =
     binary64 (binary64 (binary64 (4 * Math_exp (binary64 (- binary64 0.045 * binary64 (t / 1000)))) + 1) * 1000)"
  by (simp add: getRequiredWindowSizeInMs_def Let_def)

lemma rws_zero: "getRequiredWindowSizeInMs 0 = 5000"
  by (simp add: rws_formula Math_exp_def binary64_zero binary64_ints)

lemma rws_antimono:
  assumes "t1 \<le> t2"
  shows "getRequiredWindowSizeInMs t2 \<le> getRequiredWindowSizeInMs t1"
proof -
  have c: "0 \<le> binary64 0.045"
    using literal_045(1) by simp
  from assms have "binary64 (t1 / 1000) \<le> binary64 (t2 / 1000)"
    by (intro binary64_mono) simp
  with c have "- binary64 0.045 * binary64 (t2 / 1000) \<le> - binary64 0.045 * binary64 (t1 / 1000)"
    by (simp add: mult_left_mono)
  then have "binary64 (- binary64 0.045 * binary64 (t2 / 1000))
      \<le> binary64 (- binary64 0.045 * binary64 (t1 / 1000))"
    by (rule binary64_mono)
  then have "Math_exp (binary64 (- binary64 0.045 * binary64 (t2 / 1000)))
      \<le> Math_exp (binary64 (- binary64 0.045 * binary64 (t1 / 1000)))"
    unfolding Math_exp_def by (intro binary64_mono) simp
  then have "binary64 (4 * Math_exp (binary64 (- binary64 0.045 * binary64 (t2 / 1000))))
      \<le> binary64 (4 * Math_exp (binary64 (- binary64 0.045 * binary64 (t1 / 1000))))"
    by (intro binary64_mono) simp
  then have "binary64 (binary64 (4 * Math_exp (binary64 (- binary64 0.045 * binary64 (t2 / 1000)))) + 1)
      \<le> binary64 (binary64 (4 * Math_exp (binary64 (- binary64 0.045 * binary64 (t1 / 1000)))) + 1)"
    by (intro binary64_mono) simp
  then show ?thesis
    unfolding rws_formula by (intro binary64_mono) simp
qed


lemma rws_upper:
  assumes "0 \<le> t"
  shows "getRequiredWindowSizeInMs t \<le> 5000"
  using rws_antimono [OF assms] by (simp add: rws_zero)

lemma rws_lower_6500:
  assumes "t \<le> 6500"
  shows "3375 \<le> getRequiredWindowSizeInMs t"
proof -
  have "3375 \<le> getRequiredWindowSizeInMs 6500"
  proof -
    let ?a = "binary64 (- binary64 0.045 * binary64 (6500 / 1000))"
    have s: "binary64 (6500 / 1000) = 13 / 2"
      using binary64_fractions(3) by simp
    have "- (13 / 32) \<le> - binary64 0.045 * (13 / 2)"
      using literal_045(2) by simp
    then have "binary64 (- (13 / 32)) \<le> binary64 (- binary64 0.045 * (13 / 2))"
      by (rule binary64_mono)
    moreover have "binary64 (- (13 / 32)) = - (13 / 32)"
      by (simp only: binary64_minus binary64_fractions)
    ultimately have "- (13 / 32) \<le> ?a"
      unfolding s by (simp only:)
    then have "exp (- (13 / 32)) \<le> exp ?a"
      by (simp only: exp_le_cancel_iff)
    moreover have "1 + - (13 / 32) \<le> exp (- (13 / 32) :: real)"
      by (rule exp_ge_add_one_self)
    ultimately have "19 / 32 \<le> exp ?a"
      by linarith
    then have "19 / 32 \<le> Math_exp ?a"
      unfolding Math_exp_def by (intro binary64_ge binary64_fractions)
    then have "19 / 8 \<le> binary64 (4 * Math_exp ?a)"
      by (intro binary64_ge binary64_fractions) simp
    then have "27 / 8 \<le> binary64 (binary64 (4 * Math_exp ?a) + 1)"
      by (intro binary64_ge binary64_fractions) simp
    then show ?thesis
      unfolding rws_formula by (intro binary64_ge binary64_ints) simp
  qed
  with rws_antimono [OF assms] show ?thesis by simp
qed



subsection \<open>The classifier's loop is a fold over the scanned prefix\<close>





subsection \<open>The run on the lonely-task example\<close>

lemma ex_lonely1: "getLastLonelyTaskIndex lonelyTasksExample 1 5000 60000 = Inr (- 1)"
  by (simp add: getLastLonelyTaskIndex_def nth_js_def constants_defs lonelyTasksExample_def)

lemma ex_lonely2: "getLastLonelyTaskIndex lonelyTasksExample 2 5000 60000 = Inr 4"
  by (simp add: getLastLonelyTaskIndex_def nth_js_def constants_defs lonelyTasksExample_def
      lonelyScan.simps)

lemma ex_lonely5: "getLastLonelyTaskIndex lonelyTasksExample 5 5000 60000 = Inr 5"
  by (simp add: getLastLonelyTaskIndex_def nth_js_def constants_defs lonelyTasksExample_def
      lonelyScan.simps)

lemma ex_nth:
  "nth_js lonelyTasksExample 0 = Some \<lparr>start = 2200, endT = 10000\<rparr>"
  "nth_js lonelyTasksExample 1 = Some \<lparr>start = 11000, endT = 11500\<rparr>"
  "nth_js lonelyTasksExample 2 = Some \<lparr>start = 12750, endT = 12825\<rparr>"
  "nth_js lonelyTasksExample 5 = Some \<lparr>start = 14000, endT = 14200\<rparr>"
  "length lonelyTasksExample = 6"
  by (simp_all add: nth_js_def lonelyTasksExample_def)

lemma ex_quiet0: "11000 < w \<Longrightarrow> isQuietFrom lonelyTasksExample 5000 60000 w 1 = Inr False"
  by (subst isQuietFrom.simps) (simp add: ex_nth ex_lonely1)

lemma ex_quiet1: "14000 < w \<Longrightarrow> isQuietFrom lonelyTasksExample 5000 60000 w 2 = Inr True"
  apply (subst isQuietFrom.simps, simp add: ex_nth ex_lonely2)
  apply (subst isQuietFrom.simps, simp add: ex_nth ex_lonely5)
  apply (subst isQuietFrom.simps, simp add: ex_nth)
  done

lemma ex_from1: "findQuietWindowFrom 5000 60000 lonelyTasksExample 1 = Inr 11500"
proof -
  have "3375 \<le> getRequiredWindowSizeInMs 6500" "getRequiredWindowSizeInMs 6500 \<le> 5000"
    using rws_lower_6500 [of 6500] rws_upper [of 6500] by simp_all
  then show ?thesis
    by (subst findQuietWindowFrom.simps) (simp add: ex_nth Let_def ex_quiet1)
qed

lemma ex_from0: "findQuietWindowFrom 5000 60000 lonelyTasksExample 0 = Inr 11500"
proof -
  have "3375 \<le> getRequiredWindowSizeInMs 5000" "getRequiredWindowSizeInMs 5000 \<le> 5000"
    using rws_lower_6500 [of 5000] rws_upper [of 5000] by simp_all
  then show ?thesis
    by (subst findQuietWindowFrom.simps) (simp add: ex_nth Let_def ex_quiet0 ex_from1)
qed

subsection \<open>Faults and results of the scanner\<close>

lemma nth_js_Some_iff: "(\<exists>t. nth_js xs i = Some t) \<longleftrightarrow> 0 \<le> i \<and> i < int (length xs)"
  by (simp add: nth_js_def)

lemma nth_js_in_set: "nth_js xs i = Some t \<Longrightarrow> t \<in> set xs"
  by (auto simp: nth_js_def split: if_splits)

lemma getLastLonelyTaskIndex_returns:
  assumes "1 \<le> i" and "i < int (length ts)"
  shows "\<exists>k. getLastLonelyTaskIndex ts i FMP te = Inr k"
proof -
  from assms obtain t p where "nth_js ts i = Some t" "nth_js ts (i - 1) = Some p"
    by (auto simp: nth_js_def)
  then show ?thesis
    by (simp add: getLastLonelyTaskIndex_def Let_def)
qed

lemma getLastLonelyTaskIndex_outside:
  "i < 0 \<or> int (length ts) \<le> i \<Longrightarrow> getLastLonelyTaskIndex ts i FMP te = Inl TypeError"
  by (auto simp: getLastLonelyTaskIndex_def nth_js_def)

lemma getLastLonelyTaskIndex_first:
  assumes "nth_js ts 0 = Some t"
  shows "getLastLonelyTaskIndex ts 0 FMP te =
           (if start t < FMP + 5000 \<or> te - endT t < 1000 then Inr (- 1) else Inl TypeError)"
  using assms by (simp add: getLastLonelyTaskIndex_def nth_js_def constants_defs)

lemma isQuietFrom_returns:
  "1 \<le> j \<Longrightarrow> \<exists>q. isQuietFrom ts FMP te w j = Inr q"
proof (induction ts FMP te w j rule: isQuietFrom.induct)
  case (1 ts FMP te w j)
  show ?case
  proof (cases "j < int (length ts)")
    case False
    then show ?thesis
      by (subst isQuietFrom.simps) auto
  next
    case True
    with "1.prems" obtain t where t: "nth_js ts j = Some t"
      by (auto simp: nth_js_def)
    from getLastLonelyTaskIndex_returns [OF "1.prems" True]
    obtain k where k: "getLastLonelyTaskIndex ts j FMP te = Inr k"
      by blast
    show ?thesis
    proof (cases "start t < w \<and> k \<noteq> - 1")
      case False
      with True t k show ?thesis
        by (subst isQuietFrom.simps) auto
    next
      case go: True
      with getLastLonelyTaskIndex_bounds [OF k] "1.prems" have "1 \<le> k + 1"
        by simp
      with "1.IH" [OF True t _ k] go
      obtain q where "isQuietFrom ts FMP te w (k + 1) = Inr q"
        by blast
      with True t k go show ?thesis
        by (subst isQuietFrom.simps) simp
    qed
  qed
qed

lemma findQuietWindowFrom_cases:
  "0 \<le> i \<Longrightarrow> findQuietWindowFrom FMP te ts i = Inl TraceBusy \<or>
     (\<exists>t \<in> set ts. findQuietWindowFrom FMP te ts i = Inr (endT t))"
proof (induction FMP te ts i rule: findQuietWindowFrom.induct)
  case (1 FMP te ts i)
  show ?case
  proof (cases "i < int (length ts)")
    case False
    then show ?thesis
      by (subst (1 2) findQuietWindowFrom.simps) simp
  next
    case True
    with "1.prems" obtain ev where ev: "nth_js ts i = Some ev"
      by (auto simp: nth_js_def)
    then have mem: "ev \<in> set ts"
      by (rule nth_js_in_set)
    let ?w = "endT ev + getRequiredWindowSizeInMs (endT ev - FMP)"
    from isQuietFrom_returns [of "i + 1" ts FMP te ?w] "1.prems"
    obtain q where q: "isQuietFrom ts FMP te ?w (i + 1) = Inr q"
      by auto
    show ?thesis
    proof (cases "?w > te")
      case True
      with \<open>i < int (length ts)\<close> ev show ?thesis
        by (subst (1 2) findQuietWindowFrom.simps) (simp add: Let_def)
    next
      case False
      show ?thesis
      proof (cases q)
        case True
        with False \<open>i < int (length ts)\<close> ev q mem show ?thesis
          by (subst (1 2) findQuietWindowFrom.simps) (auto simp: Let_def)
      next
        case nq: False
        have "findQuietWindowFrom FMP te ts (i + 1) = Inl TraceBusy \<or>
              (\<exists>t \<in> set ts. findQuietWindowFrom FMP te ts (i + 1) = Inr (endT t))"
          using "1.IH" [OF True ev refl refl refl _ q] False nq "1.prems" by simp
        with False nq \<open>i < int (length ts)\<close> ev q show ?thesis
          by (subst (1 2) findQuietWindowFrom.simps) (simp add: Let_def)
      qed
    qed
  qed
qed

lemma findQuietWindow_cases:
  "findQuietWindow FMP te ts = Inr FMP \<or> findQuietWindow FMP te ts = Inl TraceBusy \<or>
   (\<exists>t \<in> set ts. findQuietWindow FMP te ts = Inr (endT t))"
proof (cases ts)
  case Nil
  then show ?thesis by (simp add: findQuietWindow_def)
next
  case (Cons a as)
  then have "nth_js ts 0 = Some a"
    by (simp add: nth_js_def)
  with findQuietWindowFrom_cases [of 0 FMP te ts] Cons show ?thesis
    by (auto simp: findQuietWindow_def)
qed




subsection \<open>Two further runs\<close>


lemma single_quiet: "isQuietFrom [t] FMP te w 1 = Inr True"
  by (subst isQuietFrom.simps) simp

lemma dcl_floor_run: "findQuietWindow 3400 12000 [\<lparr>start = 5000, endT = 5100\<rparr>] = Inr 5100"
proof -
  have "getRequiredWindowSizeInMs 1700 \<le> 5000"
    using rws_upper [of 1700] by simp
  then have "findQuietWindowFrom 3400 12000 [\<lparr>start = 5000, endT = 5100\<rparr>] 0 = Inr 5100"
    by (subst findQuietWindowFrom.simps) (simp add: nth_js_def Let_def single_quiet)
  then show ?thesis
    by (simp add: findQuietWindow_def nth_js_def constants_defs)
qed

lemma lonely_example_run: "findQuietWindow 5000 60000 lonelyTasksExample = Inr 11500"
  using ex_from0 by (simp add: findQuietWindow_def constants_defs ex_nth)

lemma findQuietWindow_error: "findQuietWindow FMP te ts = Inl e \<Longrightarrow> e = TraceBusy"
  using findQuietWindow_cases [of FMP te ts] by auto

section \<open>The claims\<close>













text \<open>
  C7. The two excerpts of the detector agree on every input: \<open>getRequiredWindowSizeInMs\<close>,
  \<open>getLastLonelyTaskIndex\<close>, \<open>findQuietWindow\<close> and \<open>computeWithArtifacts\<close> of the first
  return the same value, or the same error, as those of the second.
\<close>

theorem detector_versions_agree:
  "getRequiredWindowSizeInMs t = getRequiredWindowSizeInMs_v2 t \<and>
   getLastLonelyTaskIndex longTasks i FMP traceEnd =
     getLastLonelyTaskIndex_v2 longTasks i FMP traceEnd \<and>
   findQuietWindow FMP traceEnd longTasks = findQuietWindow_v2 FMP traceEnd longTasks \<and>
   computeWithArtifacts getMainThreadTopLevelEvents tab =
     computeWithArtifacts_v2 getMainThreadTopLevelEvents tab"
  by (simp add: getRequiredWindowSizeInMs_v2_eq getLastLonelyTaskIndex_v2_eq findQuietWindow_v2_eq
      computeWithArtifacts_v2_eq)

text \<open>
  C8. \<open>getLastLonelyTaskIndex\<close> reads \<open>longTasks[i - 1].end\<close> without a guard. With
  \<open>1 \<le> i < longTasks.length\<close> both reads are in bounds and it returns an index or the
  sentinel; outside the list it faults, and at \<open>i = 0\<close> it faults as soon as the first two
  gate conditions let the read of the previous task happen. The inner loop of
  \<open>findQuietWindow\<close> only calls it at cursors \<open>j \<ge> 1\<close> inside the list, so from such a
  cursor the loop yields a boolean, and \<open>findQuietWindow\<close> never faults.
\<close>

theorem getLastLonelyTaskIndex_reads_in_bounds:
  "(1 \<le> i \<and> i < int (length longTasks) \<longrightarrow>
      (\<exists>k. getLastLonelyTaskIndex longTasks i FMP traceEnd = Inr k)) \<and>
   (i < 0 \<or> int (length longTasks) \<le> i \<longrightarrow>
      getLastLonelyTaskIndex longTasks i FMP traceEnd = Inl TypeError) \<and>
   (longTasks \<noteq> [] \<longrightarrow>
      getLastLonelyTaskIndex longTasks 0 FMP traceEnd =
        (if start (longTasks ! 0) < FMP + 5000 \<or> traceEnd - endT (longTasks ! 0) < 1000
         then Inr (- 1) else Inl TypeError)) \<and>
   (1 \<le> j \<longrightarrow> (\<exists>isQuiet. isQuietFrom longTasks FMP traceEnd windowEnd j = Inr isQuiet)) \<and>
   findQuietWindow FMP traceEnd longTasks \<noteq> Inl TypeError"
proof -
  have "getLastLonelyTaskIndex longTasks 0 FMP traceEnd =
        (if start (longTasks ! 0) < FMP + 5000 \<or> traceEnd - endT (longTasks ! 0) < 1000
         then Inr (- 1) else Inl TypeError)" if "longTasks \<noteq> []"
    using that by (intro getLastLonelyTaskIndex_first) (simp add: nth_js_def)
  moreover have "findQuietWindow FMP traceEnd longTasks \<noteq> Inl TypeError"
    using findQuietWindow_error [of FMP traceEnd longTasks TypeError] by auto
  ultimately show ?thesis
    using getLastLonelyTaskIndex_returns [of i longTasks FMP traceEnd]
      getLastLonelyTaskIndex_outside [of i longTasks FMP traceEnd]
      isQuietFrom_returns [of j longTasks FMP traceEnd windowEnd]
    by blast
qed

theorem getLastLonelyTaskIndex_reads_in_bounds_witness:
  "(1::int) \<le> 1 \<and> 1 < int (length lonelyTasksExample) \<and>
   getLastLonelyTaskIndex lonelyTasksExample 1 5000 60000 = Inr (- 1) \<and>
   int (length lonelyTasksExample) \<le> 6 \<and>
   getLastLonelyTaskIndex lonelyTasksExample 6 5000 60000 = Inl TypeError \<and>
   [\<lparr>start = 6000, endT = 6100\<rparr>] \<noteq> [] \<and>
   getLastLonelyTaskIndex [\<lparr>start = 6000, endT = 6100\<rparr>] 0 200 60000 = Inl TypeError \<and>
   findQuietWindow 5000 60000 lonelyTasksExample \<noteq> Inl TypeError"
  using getLastLonelyTaskIndex_reads_in_bounds [of 1 lonelyTasksExample 5000 60000 1 0]
    getLastLonelyTaskIndex_reads_in_bounds [of 6 lonelyTasksExample 5000 60000 1 0]
    getLastLonelyTaskIndex_reads_in_bounds [of 0 "[\<lparr>start = 6000, endT = 6100\<rparr>]" 200 60000 1 0]
    ex_lonely1
  by (simp add: lonelyTasksExample_def)

text \<open>
  C9. When \<open>getLastLonelyTaskIndex(longTasks, i, FMP, traceEnd)\<close> returns a value \<open>k\<close>
  other than \<open>-1\<close>, then \<open>i \<le> k < longTasks.length\<close>. So the next cursor \<open>k + 1\<close> of the
  inner loop of \<open>findQuietWindow\<close> is strictly beyond \<open>i\<close>, the distance to the end of the
  list strictly decreases, and the inner loop ends: from a cursor \<open>i \<ge> 1\<close> it yields a
  boolean.
\<close>

theorem getLastLonelyTaskIndex_index_range:
  assumes "getLastLonelyTaskIndex longTasks i FMP traceEnd = Inr k" and "k \<noteq> - 1"
  shows "i \<le> k \<and> k < int (length longTasks) \<and> i < k + 1 \<and>
         nat (int (length longTasks) - (k + 1)) < nat (int (length longTasks) - i) \<and>
         (1 \<le> i \<longrightarrow> (\<exists>isQuiet. isQuietFrom longTasks FMP traceEnd windowEnd i = Inr isQuiet))"
  using getLastLonelyTaskIndex_bounds [OF assms]
    isQuietFrom_returns [of i longTasks FMP traceEnd windowEnd]
  by auto

theorem getLastLonelyTaskIndex_index_range_witness:
  "getLastLonelyTaskIndex lonelyTasksExample 2 5000 60000 = Inr 4 \<and> (4::int) \<noteq> - 1 \<and>
   (2::int) \<le> 4 \<and> 4 < int (length lonelyTasksExample) \<and>
   isQuietFrom lonelyTasksExample 5000 60000 15000 2 = Inr True"
  using getLastLonelyTaskIndex_index_range [of lonelyTasksExample 2 5000 60000 4 15000]
    ex_lonely2 ex_quiet1 [of 15000]
  by (simp add: lonelyTasksExample_def)

text \<open>
  C10. A value that \<open>findQuietWindow\<close> returns is \<open>FMP\<close> or the end of a task of the list.
  Hence, when every task of the list ends after \<open>FMP\<close> (the filter of the orchestrator
  keeps only such tasks), the value is at least \<open>FMP\<close>, and the \<open>timeInMs\<close> that
  \<open>computeWithArtifacts\<close> returns is at least \<open>FMP\<close> and at least \<open>DCL\<close>.
\<close>

theorem findQuietWindow_result_range:
  "(findQuietWindow FMP traceEnd longTasks = Inr v \<longrightarrow> v = FMP \<or> v \<in> endT ` set longTasks) \<and>
   ((\<forall>t \<in> set longTasks. endT t > FMP) \<and> findQuietWindow FMP traceEnd longTasks = Inr v \<longrightarrow>
      v \<ge> FMP) \<and>
   (computeWithArtifacts getMainThreadTopLevelEvents tab = Inr r \<longrightarrow>
      timeInMs r \<ge> firstMeaningfulPaint (timings tab) \<and>
      timeInMs r \<ge> domContentLoaded (timings tab))"
proof -
  have a: "v = FMP \<or> v \<in> endT ` set ts" if "findQuietWindow FMP te ts = Inr v" for FMP te ts v
    using findQuietWindow_cases [of FMP te ts] that by auto
  have b: "v \<ge> FMP" if "\<forall>t \<in> set ts. endT t > FMP" "findQuietWindow FMP te ts = Inr v"
    for FMP te ts v
    using a [OF that(2)] that(1) by auto
  have c: "timeInMs r \<ge> firstMeaningfulPaint (timings tab) \<and>
           timeInMs r \<ge> domContentLoaded (timings tab)"
    if "computeWithArtifacts getMainThreadTopLevelEvents tab = Inr r"
  proof -
    let ?FMP = "firstMeaningfulPaint (timings tab)"
    let ?ts = "filter (\<lambda>evt. endT evt - start evt \<ge> LONG_TASK_THRESHOLD \<and> endT evt > ?FMP)
                 (getMainThreadTopLevelEvents ?FMP)"
    from that obtain q where q: "findQuietWindow ?FMP (traceEndT (timings tab)) ?ts = Inr q"
      and r: "timeInMs r = max q (domContentLoaded (timings tab))"
      by (auto simp: computeWithArtifacts_def Let_def split: if_splits sum.splits)
    have "q \<ge> ?FMP"
      by (rule b [OF _ q]) simp
    with r show ?thesis by simp
  qed
  from a b c show ?thesis by blast
qed

text \<open>
  The witness: the lonely-task example, and the scenario of the test
  \<^verbatim>\<open>should return DCL when DCL is after interactive\<close> (one event from 5000 to 5100,
  \<open>FMP = 3400\<close>, \<open>DCL = 7000\<close>, \<open>traceEnd = 12000\<close>).
\<close>

theorem findQuietWindow_result_range_witness:
  "list_all (\<lambda>t. endT t > 5000) lonelyTasksExample \<and>
   findQuietWindow 5000 60000 lonelyTasksExample = Inr 11500 \<and>
   (11500::real) \<in> endT ` set lonelyTasksExample \<and> (11500::real) \<ge> 5000 \<and>
   computeWithArtifacts (\<lambda>FMP. [\<lparr>start = 5000, endT = 5100\<rparr>])
      \<lparr>timestamps = \<lparr>navigationStart = 0\<rparr>,
       timings = \<lparr>firstMeaningfulPaint = 3400, domContentLoaded = 7000, traceEndT = 12000\<rparr>\<rparr>
     = Inr \<lparr>timeInMs = 7000, timestamp = 7000000\<rparr> \<and>
   (7000::real) \<ge> 3400 \<and> (7000::real) \<ge> 7000"
proof -
  let ?tab = "\<lparr>timestamps = \<lparr>navigationStart = 0\<rparr>,
       timings = \<lparr>firstMeaningfulPaint = 3400, domContentLoaded = 7000, traceEndT = 12000\<rparr>\<rparr>"
  have run: "computeWithArtifacts (\<lambda>FMP. [\<lparr>start = 5000, endT = 5100\<rparr>]) ?tab
               = Inr \<lparr>timeInMs = 7000, timestamp = 7000000\<rparr>"
    using dcl_floor_run by (simp add: computeWithArtifacts_def constants_defs)
  from findQuietWindow_result_range [of 5000 60000 lonelyTasksExample 11500]
    findQuietWindow_result_range [of 0 0 "[]" 0 "\<lambda>FMP. [\<lparr>start = 5000, endT = 5100\<rparr>]" ?tab
      "\<lparr>timeInMs = 7000, timestamp = 7000000\<rparr>"]
    lonely_example_run run
  show ?thesis
    by (simp add: lonelyTasksExample_def)
qed

end
